theory Spec2Isabelle
  imports Main
begin

section \<open>The XSD schema compiler of \<^verbatim>\<open>src/parser.py\<close>\<close>

subsection \<open>Type expressions\<close>

text \<open>
  \<^verbatim>\<open>Expr(kind, value)\<close> carries one of four kinds (\<^verbatim>\<open>"scalar"\<close>, \<^verbatim>\<open>"object"\<close>,
  \<^verbatim>\<open>"list"\<close>, \<^verbatim>\<open>"optional"\<close>); the payload is a string, a list of fields or an
  inner expression. \<^verbatim>\<open>Field(name, expr)\<close> pairs a name with an expression.
\<close>

datatype expr = Scalar string | Object "field list" | List expr | Optional expr
  and field = Field (field_name: string) (field_expr: expr)

subsection \<open>Parsed XML\<close>

text \<open>
  An \<^verbatim>\<open>ElementTree\<close> element, as far as the compiler reads it: the tag (with its
  namespace in braces), the attribute dictionary and the child elements in document
  order. Text and tail are never read by the compiler.
\<close>

datatype xml = Element (tag: string) (attrib: "(string \<times> string) list") (children: "xml list")

definition XSD_NS :: string where
  "XSD_NS = ''{http://www.w3.org/2001/XMLSchema}''"

definition xsd :: "string \<Rightarrow> string" where
  "xsd t = XSD_NS @ t"

text \<open>\<^verbatim>\<open>node.get(key)\<close> and \<^verbatim>\<open>node.get(key, default)\<close>.\<close>

definition et_get :: "xml \<Rightarrow> string \<Rightarrow> string option" where
  "et_get node key = map_of (attrib node) key"

definition et_get_default :: "xml \<Rightarrow> string \<Rightarrow> string \<Rightarrow> string" where
  "et_get_default node key d = (case et_get node key of None \<Rightarrow> d | Some v \<Rightarrow> v)"

text \<open>\<^verbatim>\<open>node.find(t)\<close> and \<^verbatim>\<open>node.findall(t)\<close> for a plain tag: the direct children
  with exactly that tag, the first one or all of them in document order.\<close>

definition et_find :: "xml \<Rightarrow> string \<Rightarrow> xml option" where
  "et_find node t = find (\<lambda>ch. tag ch = t) (children node)"

definition et_findall :: "xml \<Rightarrow> string \<Rightarrow> xml list" where
  "et_findall node t = filter (\<lambda>ch. tag ch = t) (children node)"

text \<open>Python's truth value of \<^verbatim>\<open>str | None\<close>: neither \<^verbatim>\<open>None\<close> nor empty.\<close>

fun truthy :: "string option \<Rightarrow> bool" where
  "truthy None = False"
| "truthy (Some s) = (s \<noteq> [])"

subsection \<open>Strings\<close>

definition is_digit :: "char \<Rightarrow> bool" where
  "is_digit c = (48 \<le> (of_char c :: nat) \<and> (of_char c :: nat) \<le> 57)"

definition is_upper :: "char \<Rightarrow> bool" where
  "is_upper c = (65 \<le> (of_char c :: nat) \<and> (of_char c :: nat) \<le> 90)"

definition is_lower :: "char \<Rightarrow> bool" where
  "is_lower c = (97 \<le> (of_char c :: nat) \<and> (of_char c :: nat) \<le> 122)"

definition is_alnum :: "char \<Rightarrow> bool" where
  "is_alnum c = (is_digit c \<or> is_upper c \<or> is_lower c)"

definition lower_char :: "char \<Rightarrow> char" where
  "lower_char c = (if is_upper c then char_of ((of_char c :: nat) + 32) else c)"

text \<open>\<^verbatim>\<open>s.lower()\<close> on ASCII text, for \<open>snake_case\<close>, where the first substitution
  leaves nothing but ASCII: the letters \<^verbatim>\<open>A\<close> to \<^verbatim>\<open>Z\<close> are lowered and every other
  character is kept.\<close>

definition lower :: "string \<Rightarrow> string" where
  "lower s = map lower_char s"

text \<open>
  \<^verbatim>\<open>s.lower()\<close> on any text, held as its UTF-8 bytes, as far as a comparison with ASCII
  text can tell. Besides \<^verbatim>\<open>A\<close> to \<^verbatim>\<open>Z\<close>, exactly two characters have ASCII letters in
  their lower case: the Kelvin sign U+212A (bytes E2 84 AA) becomes \<^verbatim>\<open>k\<close>, and the
  dotted capital I U+0130 (bytes C4 B0) becomes \<^verbatim>\<open>i\<close> followed by U+0307 (bytes CC 87).
  Every other character outside ASCII is kept: Python maps it to itself or to another
  character outside ASCII, and the compiler only compares the result with ASCII words.
\<close>

function str_lower :: "string \<Rightarrow> string" where
  "str_lower [] = []"
| "str_lower (a # cs) =
     (if a = CHR 0xE2 \<and> take 2 cs = [CHR 0x84, CHR 0xAA] then CHR ''k'' # str_lower (drop 2 cs)
      else if a = CHR 0xC4 \<and> take 1 cs = [CHR 0xB0]
        then CHR ''i'' # CHR 0xCC # CHR 0x87 # str_lower (drop 1 cs)
      else lower_char a # str_lower cs)"
  by pat_completeness auto
termination
  by (relation "measure length") auto

text \<open>\<^verbatim>\<open>s.strip("_")\<close>.\<close>

definition strip_underscores :: "string \<Rightarrow> string" where
  "strip_underscores s =
     rev (dropWhile (\<lambda>c. c = CHR ''_'') (rev (dropWhile (\<lambda>c. c = CHR ''_'') s)))"

text \<open>\<^verbatim>\<open>re.sub(r"[^0-9A-Za-z]+", "_", s)\<close>: every maximal run of characters outside
  the class becomes one underscore.\<close>

function sub_non_alnum :: "string \<Rightarrow> string" where
  "sub_non_alnum [] = []"
| "sub_non_alnum (c # cs) =
     (if is_alnum c then c # sub_non_alnum cs
      else CHR ''_'' # sub_non_alnum (dropWhile (\<lambda>d. \<not> is_alnum d) cs))"
  by pat_completeness auto
termination
  by (relation "measure length") (auto simp: le_imp_less_Suc length_dropWhile_le)

text \<open>\<^verbatim>\<open>re.sub(r"([a-z0-9])([A-Z])", r"\1_\2", s)\<close>: the scan goes left to right and
  resumes after the two characters of each match.\<close>

fun sub_camel :: "string \<Rightarrow> string" where
  "sub_camel (a # b # cs) =
     (if (is_lower a \<or> is_digit a) \<and> is_upper b then a # CHR ''_'' # b # sub_camel cs
      else a # sub_camel (b # cs))"
| "sub_camel cs = cs"

definition snake_case :: "string \<Rightarrow> string" where
  "snake_case raw = lower (strip_underscores (sub_camel (sub_non_alnum raw)))"

text \<open>The shape that the two substitutions establish and that stripping and lower-casing
  keep: every character is alphanumeric or an underscore, and an underscore is followed
  by an alphanumeric character or by nothing. It is used to state the invariant of
  \<open>snake_case\<close>.\<close>

fun separated :: "string \<Rightarrow> bool" where
  "separated [] = True"
| "separated (c # cs) =
     ((is_alnum c \<or> c = CHR ''_'' \<and> (case cs of [] \<Rightarrow> True | d # ds \<Rightarrow> is_alnum d))
      \<and> separated cs)"

text \<open>\<^verbatim>\<open>sub in s\<close> on strings, and \<^verbatim>\<open>s.startswith(p)\<close>.\<close>

definition startswith :: "string \<Rightarrow> string \<Rightarrow> bool" where
  "startswith s p = (take (length p) s = p)"

fun contains :: "string \<Rightarrow> string \<Rightarrow> bool" where
  "contains sub [] = (sub = [])"
| "contains sub (c # cs) = (startswith (c # cs) sub \<or> contains sub cs)"

text \<open>\<^verbatim>\<open>s.split(sep, 1)[1]\<close> when the separator occurs in \<^verbatim>\<open>s\<close>: what follows its
  first occurrence.\<close>

definition after_first :: "char \<Rightarrow> string \<Rightarrow> string" where
  "after_first sep s = tl (dropWhile (\<lambda>c. c \<noteq> sep) s)"

definition strip_ns :: "string \<Rightarrow> string" where
  "strip_ns tag_or_type =
     (if tag_or_type = [] then []
      else if CHR ''}'' \<in> set tag_or_type then after_first (CHR ''}'') tag_or_type
      else if CHR '':'' \<in> set tag_or_type then after_first (CHR '':'') tag_or_type
      else tag_or_type)"

subsection \<open>The compiler object and the schema index\<close>

text \<open>
  The fields of \<^verbatim>\<open>XSDSchemaCompiler\<close>. The three dictionaries map the raw
  \<^verbatim>\<open>name\<close> attribute of a top-level declaration to its node. The document is taken
  as already parsed: \<^verbatim>\<open>root\<close> is \<^verbatim>\<open>self.tree.getroot()\<close>. The field
  \<^verbatim>\<open>schema_path\<close> holds the \<^verbatim>\<open>pathlib.Path\<close> object built from the path given; the
  compiler only stores it and formats it into its error message, so the model takes it
  as a value of an arbitrary type \<open>'p\<close> and never looks into it.
\<close>

record 'p compiler =
  schema_path :: 'p
  root :: xml
  simple_types :: "string \<rightharpoonup> xml"
  complex_types :: "string \<rightharpoonup> xml"
  global_elements :: "string \<rightharpoonup> xml"
  ignored_keys :: "string set"

text \<open>The body of the loop of \<^verbatim>\<open>_index_schema\<close>, for one child of the root.\<close>

definition index_child :: "xml \<Rightarrow> 'p compiler \<Rightarrow> 'p compiler" where
  "index_child child c =
     (let loc = strip_ns (tag child); nm = et_get child ''name'' in
      if \<not> truthy nm then c
      else if loc = ''simpleType'' then c\<lparr>simple_types := (simple_types c)(the nm \<mapsto> child)\<rparr>
      else if loc = ''complexType'' then c\<lparr>complex_types := (complex_types c)(the nm \<mapsto> child)\<rparr>
      else if loc = ''element'' then c\<lparr>global_elements := (global_elements c)(the nm \<mapsto> child)\<rparr>
      else c)"

definition index_schema :: "'p compiler \<Rightarrow> 'p compiler" where
  "index_schema c = fold index_child (children (root c)) c"

text \<open>\<^verbatim>\<open>__init__\<close>, given the \<^verbatim>\<open>Path\<close> of the schema and the parsed root element
  instead of reading the file.\<close>

definition XSDSchemaCompiler :: "'p \<Rightarrow> xml \<Rightarrow> string set \<Rightarrow> 'p compiler" where
  "XSDSchemaCompiler path doc ignored =
     index_schema \<lparr>schema_path = path, root = doc, simple_types = Map.empty,
       complex_types = Map.empty, global_elements = Map.empty, ignored_keys = ignored\<rparr>"

subsection \<open>Scalars and simple types\<close>

definition builtin_mapping :: "(string \<times> string) list" where
  "builtin_mapping =
     [(''string'', ''string''), (''token'', ''string''), (''normalizedString'', ''string''),
      (''integer'', ''int''), (''int'', ''int''), (''long'', ''int''), (''short'', ''int''),
      (''nonNegativeInteger'', ''int''), (''positiveInteger'', ''int''),
      (''boolean'', ''bool''), (''date'', ''date''), (''gYear'', ''string''),
      (''gMonth'', ''string''), (''gDay'', ''string''), (''anyURI'', ''string''),
      (''decimal'', ''float''), (''double'', ''float''), (''float'', ''float'')]"

definition builtin_scalar :: "string \<Rightarrow> string" where
  "builtin_scalar xsd_type =
     (case map_of builtin_mapping (strip_ns xsd_type) of None \<Rightarrow> ''string'' | Some k \<Rightarrow> k)"

text \<open>The loop of \<^verbatim>\<open>_enum_values_from_simple_type\<close>: the \<^verbatim>\<open>value\<close> attributes of the
  facets that have one, appended in order.\<close>

fun enum_values_loop :: "xml list \<Rightarrow> string list \<Rightarrow> string list" where
  "enum_values_loop [] vals = vals"
| "enum_values_loop (enum_node # rest) vals =
     (case et_get enum_node ''value'' of
        Some v \<Rightarrow> enum_values_loop rest (vals @ [v])
      | None \<Rightarrow> enum_values_loop rest vals)"

definition enum_values_from_simple_type :: "xml \<Rightarrow> string list" where
  "enum_values_from_simple_type node =
     (case et_find node (xsd ''restriction'') of
        None \<Rightarrow> []
      | Some restriction \<Rightarrow> enum_values_loop (et_findall restriction (xsd ''enumeration'')) [])"

text \<open>\<^verbatim>\<open>sep.join(parts)\<close>.\<close>

fun join :: "string \<Rightarrow> string list \<Rightarrow> string" where
  "join sep [] = []"
| "join sep [p] = p"
| "join sep (p # q # ps) = p @ sep @ join sep (q # ps)"

definition expr_for_simple_type :: "xml \<Rightarrow> expr" where
  "expr_for_simple_type node =
     (let enums = enum_values_from_simple_type node in
      if enums \<noteq> [] then
        Scalar (''enum('' @ join '', '' (map (\<lambda>v. [CHR 0x22] @ v @ [CHR 0x22]) enums) @ '')'')
      else
        (case et_find node (xsd ''restriction'') of
           Some restriction \<Rightarrow>
             if truthy (et_get restriction ''base'')
             then Scalar (builtin_scalar (et_get_default restriction ''base'' ''xs:string''))
             else Scalar ''string''
         | None \<Rightarrow> Scalar ''string''))"

definition base_value_name :: "string \<Rightarrow> string \<Rightarrow> string" where
  "base_value_name base_scalar context_name =
     (let ctx = str_lower context_name in
      if contains ''name'' ctx \<and> base_scalar = ''string'' then ''name''
      else if ctx \<in> {''skill''} then ''value''
      else if base_scalar = ''structured_text''
        then (if ctx \<in> {''technique''} then ''text'' else ''content'')
      else ''value'')"

definition builtin_names :: "string set" where
  "builtin_names =
     {''string'', ''integer'', ''int'', ''long'', ''short'', ''nonNegativeInteger'',
      ''positiveInteger'', ''boolean'', ''date'', ''gYear'', ''gMonth'', ''gDay'', ''anyURI'',
      ''decimal'', ''double'', ''float'', ''token'', ''normalizedString''}"

definition filter_fields :: "'p compiler \<Rightarrow> field list \<Rightarrow> field list" where
  "filter_fields c fs = filter (\<lambda>f. field_name f \<notin> ignored_keys c) fs"

definition element_occurs_wrapped :: "expr \<Rightarrow> xml \<Rightarrow> expr" where
  "element_occurs_wrapped e node =
     (let min_occurs = et_get_default node ''minOccurs'' ''1'';
          max_occurs = et_get_default node ''maxOccurs'' ''1'';
          e1 = (if max_occurs \<noteq> ''1'' then List e else e)
      in if min_occurs = ''0'' then Optional e1 else e1)"

text \<open>The first field of an extension: lines 236 to 240 and 251 to 255 of the source,
  which are the same.\<close>

definition extension_base_field :: "expr \<Rightarrow> string \<Rightarrow> field" where
  "extension_base_field base_expr context_name =
     (case base_expr of
        Scalar v \<Rightarrow> Field (base_value_name v context_name) base_expr
      | _ \<Rightarrow> Field ''value'' base_expr)"

subsection \<open>The resolver\<close>

text \<open>
  The five resolver methods call each other, and \<^verbatim>\<open>_expr_for_type_name\<close> follows a
  type reference into the index, so on a schema whose types refer to themselves the
  recursion never ends. The first argument bounds the depth of nested calls; \<open>None\<close>
  stands for a resolution that does not return within that depth.
\<close>

function (sequential) expr_for_type_name :: "nat \<Rightarrow> 'p compiler \<Rightarrow> string \<Rightarrow> string \<Rightarrow> expr option"
  and attribute_to_field :: "nat \<Rightarrow> 'p compiler \<Rightarrow> xml \<Rightarrow> field option"
  and expr_for_element_content :: "nat \<Rightarrow> 'p compiler \<Rightarrow> xml \<Rightarrow> expr option"
  and element_to_field :: "nat \<Rightarrow> 'p compiler \<Rightarrow> xml \<Rightarrow> field option"
  and expr_for_complex_type :: "nat \<Rightarrow> 'p compiler \<Rightarrow> xml \<Rightarrow> string \<Rightarrow> expr option"
where
  "expr_for_type_name 0 c type_name context_name = None"
| "expr_for_type_name (Suc n) c type_name context_name =
     (let loc = strip_ns type_name in
      if startswith type_name ''xs:'' \<or> loc \<in> builtin_names
        then Some (Scalar (builtin_scalar type_name))
      else if loc = ''StructuredTextType'' then Some (Scalar ''structured_text'')
      else (case simple_types c loc of
              Some st \<Rightarrow> Some (expr_for_simple_type st)
            | None \<Rightarrow>
               (case complex_types c loc of
                  Some ct \<Rightarrow> expr_for_complex_type n c ct context_name
                | None \<Rightarrow> Some (Scalar ''string''))))"
| "attribute_to_field 0 c attr = None"
| "attribute_to_field (Suc n) c attr =
     (let nm = snake_case (et_get_default attr ''name'' ''attribute'');
          attr_type = et_get attr ''type'';
          inline_simple = et_find attr (xsd ''simpleType'');
          resolved =
            (if truthy attr_type then expr_for_type_name n c (the attr_type) nm
             else (case inline_simple of
                     Some st \<Rightarrow> Some (expr_for_simple_type st)
                   | None \<Rightarrow> Some (Scalar ''string'')));
          required = (et_get attr ''use'' = Some ''required'')
      in (case resolved of
            None \<Rightarrow> None
          | Some e \<Rightarrow> Some (Field nm (if \<not> required then Optional e else e))))"
| "expr_for_element_content 0 c node = None"
| "expr_for_element_content (Suc n) c node =
     (let element_name = snake_case (et_get_default node ''name'' ''item'');
          element_type = et_get node ''type''
      in if truthy element_type then expr_for_type_name n c (the element_type) element_name
         else (case et_find node (xsd ''simpleType'') of
                 Some inline_simple \<Rightarrow> Some (expr_for_simple_type inline_simple)
               | None \<Rightarrow>
                  (case et_find node (xsd ''complexType'') of
                     Some inline_complex \<Rightarrow> expr_for_complex_type n c inline_complex element_name
                   | None \<Rightarrow> Some (Scalar ''string''))))"
| "element_to_field 0 c node = None"
| "element_to_field (Suc n) c node =
     (let nm = snake_case (et_get_default node ''name'' ''item'') in
      case expr_for_element_content n c node of
        None \<Rightarrow> None
      | Some e \<Rightarrow> Some (Field nm (element_occurs_wrapped e node)))"
| "expr_for_complex_type 0 c node context_name = None"
| "expr_for_complex_type (Suc n) c node context_name =
     (case (case et_find node (xsd ''complexContent'') of
              None \<Rightarrow> None
            | Some complex_content \<Rightarrow> et_find complex_content (xsd ''extension'')) of
        Some extension \<Rightarrow>
          (case expr_for_type_name n c (et_get_default extension ''base'' ''xs:string'')
                  context_name of
             None \<Rightarrow> None
           | Some base_expr \<Rightarrow>
              (case those (map (attribute_to_field n c) (et_findall extension (xsd ''attribute''))) of
                 None \<Rightarrow> None
               | Some attr_fields \<Rightarrow>
                   Some (Object (filter_fields c
                     (extension_base_field base_expr context_name # attr_fields)))))
      | None \<Rightarrow>
      (case (case et_find node (xsd ''simpleContent'') of
               None \<Rightarrow> None
             | Some simple_content \<Rightarrow> et_find simple_content (xsd ''extension'')) of
        Some extension \<Rightarrow>
          (case expr_for_type_name n c (et_get_default extension ''base'' ''xs:string'')
                  context_name of
             None \<Rightarrow> None
           | Some base_expr \<Rightarrow>
              (case those (map (attribute_to_field n c) (et_findall extension (xsd ''attribute''))) of
                 None \<Rightarrow> None
               | Some attr_fields \<Rightarrow>
                   Some (Object (filter_fields c
                     (extension_base_field base_expr context_name # attr_fields)))))
      | None \<Rightarrow>
         (let sequence = et_find node (xsd ''sequence'');
              elements = (case sequence of
                            None \<Rightarrow> []
                          | Some s \<Rightarrow> et_findall s (xsd ''element''))
          in if sequence \<noteq> None \<and> length elements = 1
                \<and> et_findall node (xsd ''attribute'') = []
                \<and> et_get_default (elements ! 0) ''minOccurs'' ''1'' = ''1''
                \<and> et_get_default (elements ! 0) ''maxOccurs'' ''1'' \<noteq> ''1''
             then (case expr_for_element_content n c (elements ! 0) of
                     None \<Rightarrow> None
                   | Some child_expr \<Rightarrow> Some (List child_expr))
             else (case those (map (element_to_field n c) elements) of
                     None \<Rightarrow> None
                   | Some element_fields \<Rightarrow>
                      (case those (map (attribute_to_field n c)
                                     (et_findall node (xsd ''attribute''))) of
                         None \<Rightarrow> None
                       | Some attr_fields \<Rightarrow>
                           Some (Object (filter_fields c (element_fields @ attr_fields))))))))"
  by pat_completeness auto
termination
  by (relation "measure (\<lambda>x. case x of Inl (Inl (n, _)) \<Rightarrow> n | Inl (Inr (n, _)) \<Rightarrow> n
        | Inr (Inl (n, _)) \<Rightarrow> n | Inr (Inr (Inl (n, _))) \<Rightarrow> n | Inr (Inr (Inr (n, _))) \<Rightarrow> n)")
    simp_all

subsection \<open>The root\<close>

text \<open>The one exception the compiler raises itself: the \<^verbatim>\<open>ValueError\<close> of
  \<^verbatim>\<open>compile_root\<close>, whose message is made of the root identifier and of
  \<^verbatim>\<open>self.schema_path\<close>, the \<^verbatim>\<open>Path\<close> object.\<close>

datatype 'p error = RootNotFound string 'p

definition aliases :: "(string \<times> string) list" where
  "aliases =
     [(''attack_pattern'', ''AttackPatternType''), (''weakness'', ''WeaknessType''),
      (''attack_pattern_catalog'', ''Attack_Pattern_Catalog''),
      (''weakness_catalog'', ''Weakness_Catalog'')]"

definition alias_lookup :: "string \<Rightarrow> string" where
  "alias_lookup root_identifier =
     (case map_of aliases root_identifier of Some a \<Rightarrow> a | None \<Rightarrow> root_identifier)"

definition compile_root ::
  "nat \<Rightarrow> 'p compiler \<Rightarrow> string \<Rightarrow> ('p error + string \<times> expr) option" where
  "compile_root fuel c root_identifier =
     (let lookup = alias_lookup root_identifier in
      case global_elements c lookup of
        Some root_element \<Rightarrow>
          (case expr_for_element_content fuel c root_element of
             None \<Rightarrow> None
           | Some e \<Rightarrow> Some (Inr (snake_case root_identifier, e)))
      | None \<Rightarrow>
         (case complex_types c lookup of
            Some ct \<Rightarrow>
              (case expr_for_complex_type fuel c ct lookup of
                 None \<Rightarrow> None
               | Some e \<Rightarrow> Some (Inr (snake_case root_identifier, e)))
          | None \<Rightarrow> Some (Inl (RootNotFound root_identifier (schema_path c)))))"

subsection \<open>The renderer\<close>

definition pad :: "nat \<Rightarrow> string" where
  "pad indent = concat (replicate indent ''  '')"

fun render_expr :: "expr \<Rightarrow> nat \<Rightarrow> string list"
  and render_field :: "field \<Rightarrow> nat \<Rightarrow> string list"
where
  "render_expr (Scalar v) indent = [pad indent @ v]"
| "render_expr (Object fs) indent =
     (let lines = concat (map (\<lambda>f. render_field f indent) fs)
      in if lines = [] then [pad indent @ ''{}''] else lines)"
| "render_expr (List inner) indent =
     (case inner of
        Scalar v \<Rightarrow> [pad indent @ ''list<'' @ v @ ''>'']
      | _ \<Rightarrow> [pad indent @ ''list<''] @ render_expr inner (indent + 1) @ [pad indent @ ''>''])"
| "render_expr (Optional inner) indent =
     (case inner of
        Scalar v \<Rightarrow> [pad indent @ ''optional<'' @ v @ ''>'']
      | _ \<Rightarrow> [pad indent @ ''optional<''] @ render_expr inner (indent + 1) @ [pad indent @ ''>''])"
| "render_field (Field nm e) indent =
     (case e of
        Object fs \<Rightarrow> [pad indent @ nm @ '':''] @ render_expr e (indent + 1)
      | _ \<Rightarrow>
         (let rendered = render_expr e indent;
              first = (case rendered of [] \<Rightarrow> ''string'' | r # rs \<Rightarrow> drop (length (pad indent)) r)
          in [pad indent @ nm @ '': '' @ first]
             @ (if length rendered > 1 then tl rendered else [])))"

definition render :: "string \<Rightarrow> expr \<Rightarrow> string" where
  "render root_name e =
     (case e of
        Object fs \<Rightarrow> join [CHR 0x0A] ([root_name @ '':''] @ render_expr e 1) @ [CHR 0x0A]
      | _ \<Rightarrow>
         (let rendered = render_expr e 0;
              first = (case rendered of [] \<Rightarrow> ''string'' | r # rs \<Rightarrow> r)
          in join [CHR 0x0A] ([root_name @ '': '' @ first] @ tl rendered) @ [CHR 0x0A]))"

text \<open>\<^verbatim>\<open>parse\<close> without its files: from the \<^verbatim>\<open>Path\<close> of the schema, the parsed
  document, the root identifier and the ignored keys to the text that is written to the
  output file.\<close>

definition parse ::
  "nat \<Rightarrow> 'p \<Rightarrow> xml \<Rightarrow> string \<Rightarrow> string set \<Rightarrow> ('p error + string) option" where
  "parse fuel input_path doc root_identifier ignored =
     (let compiler = XSDSchemaCompiler input_path doc ignored in
      case compile_root fuel compiler root_identifier of
        None \<Rightarrow> None
      | Some (Inl err) \<Rightarrow> Some (Inl err)
      | Some (Inr (root_name, e)) \<Rightarrow> Some (Inr (render root_name e)))"

subsection \<open>Schemas without self-reference\<close>


fun subnodes :: "xml \<Rightarrow> xml list" where
  "subnodes (Element t attrs chs) = chs @ concat (map subnodes chs)"




subsection \<open>Example schemas\<close>

text \<open>A small schema in the style of the CAPEC and CWE schemas: an enumeration, a
  wrapper type holding one repeated child, a type with elements and attributes, and a
  global element.\<close>

definition ex_level :: xml where
  "ex_level = Element (xsd ''simpleType'') [(''name'', ''LevelEnumeration'')]
     [Element (xsd ''restriction'') [(''base'', ''xs:string'')]
        [Element (xsd ''enumeration'') [(''value'', ''High'')] [],
         Element (xsd ''enumeration'') [(''value'', ''Medium'')] [],
         Element (xsd ''enumeration'') [(''value'', ''Low'')] []]]"

definition ex_instance :: xml where
  "ex_instance = Element (xsd ''element'')
     [(''name'', ''Example_Instance''), (''type'', ''xs:string''), (''maxOccurs'', ''unbounded'')] []"

definition ex_instances :: xml where
  "ex_instances = Element (xsd ''complexType'') [(''name'', ''ExampleInstancesType'')]
     [Element (xsd ''sequence'') [] [ex_instance]]"

definition ex_likelihood :: xml where
  "ex_likelihood = Element (xsd ''element'')
     [(''name'', ''Likelihood''), (''type'', ''LevelEnumeration''), (''minOccurs'', ''0''),
      (''maxOccurs'', ''unbounded'')] []"

definition ex_id :: xml where
  "ex_id = Element (xsd ''attribute'')
     [(''name'', ''ID''), (''type'', ''xs:integer''), (''use'', ''required'')] []"

definition ex_status :: xml where
  "ex_status = Element (xsd ''attribute'') [(''name'', ''Status''), (''use'', ''optional'')] []"

definition ex_skill :: xml where
  "ex_skill = Element (xsd ''complexType'') [(''name'', ''SkillType'')]
     [Element (xsd ''simpleContent'') []
        [Element (xsd ''extension'') [(''base'', ''xs:string'')] [ex_id]]]"

definition ex_count :: xml where
  "ex_count = Element (xsd ''complexType'') [(''name'', ''CountType'')]
     [Element (xsd ''simpleContent'') []
        [Element (xsd ''extension'') [(''base'', ''xs:integer'')] []]]"

definition ex_pattern :: xml where
  "ex_pattern = Element (xsd ''complexType'') [(''name'', ''AttackPatternType'')]
     [Element (xsd ''sequence'') []
        [ex_likelihood,
         Element (xsd ''element'') [(''name'', ''Example_Instances''),
           (''type'', ''ExampleInstancesType'')] []],
      ex_id, ex_status]"

definition ex_doc :: xml where
  "ex_doc = Element (xsd ''schema'') []
     [ex_level, ex_instances, ex_skill, ex_pattern,
      Element (xsd ''element'') [(''name'', ''Attack_Pattern''), (''type'', ''AttackPatternType'')] []]"

text \<open>Two top-level simple types declared under one name.\<close>

definition ex_dup_first :: xml where
  "ex_dup_first = Element (xsd ''simpleType'') [(''name'', ''CodeType'')]
     [Element (xsd ''restriction'') [(''base'', ''xs:string'')] []]"

definition ex_dup_second :: xml where
  "ex_dup_second = Element (xsd ''simpleType'') [(''name'', ''CodeType'')]
     [Element (xsd ''restriction'') [(''base'', ''xs:integer'')] []]"

definition ex_dup_doc :: xml where
  "ex_dup_doc = Element (xsd ''schema'') []
     [ex_dup_first, ex_dup_second,
      Element (xsd ''element'') [(''name'', ''Code''), (''type'', ''CodeType'')] []]"






definition ex_compiler :: "string compiler" where
  "ex_compiler = XSDSchemaCompiler ''capec.xsd'' ex_doc {}"

section \<open>Properties\<close>

subsection \<open>Basic facts\<close>

lemma xsd_eq [simp]: "(xsd a = xsd b) = (a = b)"
  by (simp add: xsd_def)

lemma simple_type_scalar: "\<exists>v. expr_for_simple_type node = Scalar v"
  by (simp add: expr_for_simple_type_def Let_def split: option.splits)

lemma simple_type_not_optional: "expr_for_simple_type node \<noteq> Optional x"
  using simple_type_scalar [of node] by auto

lemma complex_type_not_optional:
  "expr_for_complex_type n c node ctx = Some e \<Longrightarrow> e \<noteq> Optional x"
  by (cases n) (auto simp: Let_def split: option.splits if_splits)

lemma type_name_not_optional:
  "expr_for_type_name n c t ctx = Some e \<Longrightarrow> e \<noteq> Optional x"
  by (cases n)
    (auto simp: Let_def simple_type_not_optional split: option.splits if_splits
          dest: complex_type_not_optional)

lemma index_child_keeps:
  "ignored_keys (index_child ch c) = ignored_keys c \<and> schema_path (index_child ch c) = schema_path c"
  by (simp add: index_child_def Let_def)

lemma fold_index_child_keeps:
  "ignored_keys (fold index_child chs c) = ignored_keys c
   \<and> schema_path (fold index_child chs c) = schema_path c"
  by (induction chs arbitrary: c) (simp_all add: index_child_keeps)

lemma compiler_keeps [simp]:
  "ignored_keys (XSDSchemaCompiler path doc ign) = ign"
  "schema_path (XSDSchemaCompiler path doc ign) = path"
  by (simp_all add: XSDSchemaCompiler_def index_schema_def fold_index_child_keeps)

text \<open>On ASCII text the two renderings of \<^verbatim>\<open>str.lower()\<close> agree.\<close>

lemma str_lower_ascii:
  "\<forall>c \<in> set s. (of_char c :: nat) < 128 \<Longrightarrow> str_lower s = lower s"
proof (induction s rule: str_lower.induct)
  case 1
  show ?case by (simp add: lower_def)
next
  case (2 a cs)
  from "2.prems" have a: "(of_char a :: nat) < 128" by simp
  then have "a \<noteq> CHR 0xE2" "a \<noteq> CHR 0xC4" by auto
  with 2 show ?case by (simp add: lower_def)
qed

subsection \<open>Occurrence wrapping\<close>

text \<open>
  Claim C1. An element whose \<^verbatim>\<open>minOccurs\<close> is \<^verbatim>\<open>0\<close> and whose \<^verbatim>\<open>maxOccurs\<close> is
  unbounded or greater than one (any value other than \<^verbatim>\<open>1\<close>) gets
  \<open>Optional (List inner)\<close> around its content expression, never
  \<open>List (Optional inner)\<close>: the wrapper function returns it, and element resolution
  returns the field holding it whenever the content resolves.
\<close>

theorem optional_is_outer_wrapper:
  assumes "et_get_default node ''minOccurs'' ''1'' = ''0''"
    and "et_get_default node ''maxOccurs'' ''1'' \<noteq> ''1''"
  shows "element_occurs_wrapped inner node = Optional (List inner)
    \<and> element_occurs_wrapped inner node \<noteq> List (Optional inner)
    \<and> element_to_field (Suc n) c node =
        map_option (\<lambda>e. Field (snake_case (et_get_default node ''name'' ''item''))
                      (Optional (List e)))
          (expr_for_element_content n c node)"
  using assms by (simp add: element_occurs_wrapped_def split: option.splits)

theorem optional_is_outer_wrapper_witness:
  "et_get_default ex_likelihood ''minOccurs'' ''1'' = ''0''
   \<and> et_get_default ex_likelihood ''maxOccurs'' ''1'' \<noteq> ''1''
   \<and> element_to_field (Suc 2) ex_compiler ex_likelihood =
     Some (Field ''likelihood'' (Optional (List (Scalar
       (''enum('' @ [CHR 0x22] @ ''High'' @ [CHR 0x22] @ '', '' @ [CHR 0x22] @ ''Medium''
          @ [CHR 0x22] @ '', '' @ [CHR 0x22] @ ''Low'' @ [CHR 0x22] @ '')'')))))"
proof -
  have mn: "et_get_default ex_likelihood ''minOccurs'' ''1'' = ''0''"
    by (simp add: ex_likelihood_def et_get_default_def et_get_def)
  have mx: "et_get_default ex_likelihood ''maxOccurs'' ''1'' \<noteq> ''1''"
    by (simp add: ex_likelihood_def et_get_default_def et_get_def)
  have content: "expr_for_element_content 2 ex_compiler ex_likelihood =
      Some (Scalar (''enum('' @ [CHR 0x22] @ ''High'' @ [CHR 0x22] @ '', '' @ [CHR 0x22]
        @ ''Medium'' @ [CHR 0x22] @ '', '' @ [CHR 0x22] @ ''Low'' @ [CHR 0x22] @ '')''))"
    by code_simp
  have nm: "snake_case (et_get_default ex_likelihood ''name'' ''item'') = ''likelihood''"
    by code_simp
  show ?thesis
    using optional_is_outer_wrapper [OF mn mx, of "Scalar ''x''" 2 ex_compiler] content nm mn mx
    by simp
qed

text \<open>
  Claim C10. The occurrence attributes are compared as raw strings. The content
  expression is wrapped in \<open>List\<close> exactly when \<^verbatim>\<open>maxOccurs\<close> is present and is not
  the string \<^verbatim>\<open>1\<close> (so also for \<^verbatim>\<open>0\<close> and \<^verbatim>\<open>01\<close>), and then in \<open>Optional\<close>
  exactly when \<^verbatim>\<open>minOccurs\<close> is the string \<^verbatim>\<open>0\<close>; element resolution applies this
  wrapping to the resolved content.
\<close>

theorem occurs_raw_string_comparison:
  "element_occurs_wrapped e node =
     (let w = (if et_get node ''maxOccurs'' \<in> {None, Some ''1''} then e else List e)
      in if et_get node ''minOccurs'' = Some ''0'' then Optional w else w)
   \<and> element_to_field (Suc n) c node =
       map_option (\<lambda>inner. Field (snake_case (et_get_default node ''name'' ''item''))
                     (element_occurs_wrapped inner node))
         (expr_for_element_content n c node)"
  by (auto simp: element_occurs_wrapped_def et_get_default_def Let_def split: option.splits)

theorem occurs_raw_string_comparison_witness:
  "element_occurs_wrapped (Scalar ''int'') (Element (xsd ''element'') [(''maxOccurs'', ''01'')] [])
     = List (Scalar ''int'')
   \<and> element_occurs_wrapped (Scalar ''int'') (Element (xsd ''element'') [(''maxOccurs'', ''0'')] [])
     = List (Scalar ''int'')
   \<and> element_occurs_wrapped (Scalar ''int'')
       (Element (xsd ''element'') [(''minOccurs'', ''00''), (''maxOccurs'', ''1'')] [])
     = Scalar ''int''"
  using occurs_raw_string_comparison
          [of "Scalar ''int''" "Element (xsd ''element'') [(''maxOccurs'', ''01'')] []"
              0 ex_compiler]
        occurs_raw_string_comparison
          [of "Scalar ''int''" "Element (xsd ''element'') [(''maxOccurs'', ''0'')] []"
              0 ex_compiler]
        occurs_raw_string_comparison
          [of "Scalar ''int''"
              "Element (xsd ''element'') [(''minOccurs'', ''00''), (''maxOccurs'', ''1'')] []"
              0 ex_compiler]
  by (simp add: et_get_def)

subsection \<open>Attributes\<close>

text \<open>
  Claim C4. Attribute resolution returns the field whose expression is the attribute's
  resolved expression (from its \<^verbatim>\<open>type\<close> reference, else from its inline simple type,
  else the scalar \<^verbatim>\<open>string\<close>), wrapped in \<open>Optional\<close> if and only if the
  attribute's \<^verbatim>\<open>use\<close> is not exactly \<^verbatim>\<open>required\<close>. The resolved expression is
  never an \<open>Optional\<close> itself, so a required attribute's expression is never an
  \<open>Optional\<close> and every other attribute's expression is exactly one \<open>Optional\<close>
  around it.
\<close>

theorem attribute_optional_unless_required:
  "attribute_to_field (Suc n) c attr =
     map_option
       (\<lambda>e. Field (snake_case (et_get_default attr ''name'' ''attribute''))
              (if et_get attr ''use'' = Some ''required'' then e else Optional e))
       (if truthy (et_get attr ''type'')
        then expr_for_type_name n c (the (et_get attr ''type''))
               (snake_case (et_get_default attr ''name'' ''attribute''))
        else (case et_find attr (xsd ''simpleType'') of
                Some st \<Rightarrow> Some (expr_for_simple_type st)
              | None \<Rightarrow> Some (Scalar ''string'')))
   \<and> (\<forall>f. attribute_to_field m c attr = Some f \<longrightarrow>
         (et_get attr ''use'' = Some ''required'' \<longrightarrow> (\<forall>x. field_expr f \<noteq> Optional x))
         \<and> (et_get attr ''use'' \<noteq> Some ''required'' \<longrightarrow>
              (\<exists>e. field_expr f = Optional e \<and> (\<forall>x. e \<noteq> Optional x))))"
proof (rule conjI)
  show "attribute_to_field (Suc n) c attr =
     map_option
       (\<lambda>e. Field (snake_case (et_get_default attr ''name'' ''attribute''))
              (if et_get attr ''use'' = Some ''required'' then e else Optional e))
       (if truthy (et_get attr ''type'')
        then expr_for_type_name n c (the (et_get attr ''type''))
               (snake_case (et_get_default attr ''name'' ''attribute''))
        else (case et_find attr (xsd ''simpleType'') of
                Some st \<Rightarrow> Some (expr_for_simple_type st)
              | None \<Rightarrow> Some (Scalar ''string'')))"
    by (simp add: Let_def del: expr_for_type_name.simps split: option.splits)
next
  show "\<forall>f. attribute_to_field m c attr = Some f \<longrightarrow>
         (et_get attr ''use'' = Some ''required'' \<longrightarrow> (\<forall>x. field_expr f \<noteq> Optional x))
         \<and> (et_get attr ''use'' \<noteq> Some ''required'' \<longrightarrow>
              (\<exists>e. field_expr f = Optional e \<and> (\<forall>x. e \<noteq> Optional x)))"
  proof (intro allI impI)
    fix f assume f: "attribute_to_field m c attr = Some f"
    show "(et_get attr ''use'' = Some ''required'' \<longrightarrow> (\<forall>x. field_expr f \<noteq> Optional x))
         \<and> (et_get attr ''use'' \<noteq> Some ''required'' \<longrightarrow>
              (\<exists>e. field_expr f = Optional e \<and> (\<forall>x. e \<noteq> Optional x)))"
    proof (cases m)
      case 0
      with f show ?thesis by simp
    next
      case (Suc k)
      with f show ?thesis
        by (auto simp: Let_def simple_type_not_optional
                 split: option.splits if_splits dest: type_name_not_optional)
    qed
  qed
qed

theorem attribute_optional_unless_required_witness:
  "attribute_to_field (Suc 1) ex_compiler ex_id = Some (Field ''id'' (Scalar ''int''))
   \<and> attribute_to_field (Suc 1) ex_compiler ex_status =
       Some (Field ''status'' (Optional (Scalar ''string'')))
   \<and> et_get ex_id ''use'' = Some ''required'' \<and> (\<forall>x. Scalar ''int'' \<noteq> Optional x)
   \<and> et_get ex_status ''use'' \<noteq> Some ''required''
   \<and> (\<exists>e. Optional (Scalar ''string'') = Optional e \<and> (\<forall>x. e \<noteq> Optional x))"
proof -
  have u: "et_get ex_id ''use'' = Some ''required''" "et_get ex_status ''use'' \<noteq> Some ''required''"
      "truthy (et_get ex_id ''type'')" "\<not> truthy (et_get ex_status ''type'')"
      "et_find ex_status (xsd ''simpleType'') = None"
    by (simp_all add: ex_id_def ex_status_def et_get_def et_find_def)
  have nm: "snake_case (et_get_default ex_id ''name'' ''attribute'') = ''id''"
      "snake_case (et_get_default ex_status ''name'' ''attribute'') = ''status''"
    by code_simp+
  have ty: "expr_for_type_name 1 ex_compiler (the (et_get ex_id ''type'')) ''id'' =
      Some (Scalar ''int'')"
    by code_simp
  have a: "attribute_to_field (Suc 1) ex_compiler ex_id = Some (Field ''id'' (Scalar ''int''))"
    using attribute_optional_unless_required [of 1 ex_compiler ex_id 0] u nm ty
    by (simp del: expr_for_type_name.simps)
  have b: "attribute_to_field (Suc 1) ex_compiler ex_status =
      Some (Field ''status'' (Optional (Scalar ''string'')))"
    using attribute_optional_unless_required [of 1 ex_compiler ex_status 0] u nm
    by (simp del: expr_for_type_name.simps)
  show ?thesis
    using attribute_optional_unless_required [of 1 ex_compiler ex_id "Suc 1"]
      attribute_optional_unless_required [of 1 ex_compiler ex_status "Suc 1"] a b u
    by simp
qed

subsection \<open>The wrapper type of one repeated child\<close>

text \<open>
  Claim C3. A complex type without complex or simple content and without attributes,
  whose sequence holds exactly one element declaration with \<^verbatim>\<open>minOccurs\<close> 1 (absent or
  the string \<^verbatim>\<open>1\<close>) and \<^verbatim>\<open>maxOccurs\<close> unbounded or greater than one (any value other
  than \<^verbatim>\<open>1\<close>), resolves to the bare \<open>List\<close> of that element's content expression.
\<close>

theorem sole_repeated_child_collapses:
  assumes "et_find node (xsd ''complexContent'') = None"
    and "et_find node (xsd ''simpleContent'') = None"
    and "et_find node (xsd ''sequence'') = Some s"
    and "et_findall s (xsd ''element'') = [child]"
    and "et_findall node (xsd ''attribute'') = []"
    and "et_get_default child ''minOccurs'' ''1'' = ''1''"
    and "et_get_default child ''maxOccurs'' ''1'' \<noteq> ''1''"
  shows "expr_for_complex_type (Suc n) c node ctx =
           map_option List (expr_for_element_content n c child)"
  using assms by (simp split: option.splits)

theorem sole_repeated_child_collapses_witness:
  "expr_for_complex_type (Suc 2) ex_compiler ex_instances ''example_instances'' =
     Some (List (Scalar ''string''))
   \<and> render ''t'' (List (Scalar ''string'')) = ''t: list<string>'' @ [CHR 0x0A]"
proof -
  have h: "et_find ex_instances (xsd ''complexContent'') = None"
      "et_find ex_instances (xsd ''simpleContent'') = None"
      "et_find ex_instances (xsd ''sequence'') = Some (Element (xsd ''sequence'') [] [ex_instance])"
      "et_findall (Element (xsd ''sequence'') [] [ex_instance]) (xsd ''element'') = [ex_instance]"
      "et_findall ex_instances (xsd ''attribute'') = []"
      "et_get_default ex_instance ''minOccurs'' ''1'' = ''1''"
      "et_get_default ex_instance ''maxOccurs'' ''1'' \<noteq> ''1''"
    by (simp_all add: ex_instances_def ex_instance_def et_find_def et_findall_def
          et_get_default_def et_get_def)
  have content: "expr_for_element_content 2 ex_compiler ex_instance = Some (Scalar ''string'')"
    by code_simp
  have r: "render ''t'' (List (Scalar ''string'')) = ''t: list<string>'' @ [CHR 0x0A]"
    by code_simp
  show ?thesis
    using sole_repeated_child_collapses [OF h, of 2 ex_compiler "''example_instances''"] content r
    by simp
qed

subsection \<open>The base field of an extension\<close>

lemma extension_base_field_unfold:
  "extension_base_field base ctx =
     Field (case base of
              Scalar kind \<Rightarrow>
                if contains ''name'' (str_lower ctx) \<and> kind = ''string'' then ''name''
                else if str_lower ctx = ''skill'' then ''value''
                else if kind = ''structured_text''
                  then (if str_lower ctx = ''technique'' then ''text'' else ''content'')
                else ''value''
            | _ \<Rightarrow> ''value'') base"
  by (cases base) (simp_all add: extension_base_field_def base_value_name_def startswith_def Let_def)

lemma extension_resolution:
  assumes "(case et_find node (xsd ''complexContent'') of
              None \<Rightarrow> None | Some cc \<Rightarrow> et_find cc (xsd ''extension'')) = Some ext
           \<or> (case et_find node (xsd ''complexContent'') of
              None \<Rightarrow> None | Some cc \<Rightarrow> et_find cc (xsd ''extension'')) = None
             \<and> (case et_find node (xsd ''simpleContent'') of
              None \<Rightarrow> None | Some sc \<Rightarrow> et_find sc (xsd ''extension'')) = Some ext"
    and "expr_for_type_name n c (et_get_default ext ''base'' ''xs:string'') ctx = Some base"
    and "those (map (attribute_to_field n c) (et_findall ext (xsd ''attribute''))) = Some attr_fields"
  shows "expr_for_complex_type (Suc n) c node ctx =
     Some (Object (filter_fields c (extension_base_field base ctx # attr_fields)))"
  using assms(1)
proof
  assume "(case et_find node (xsd ''complexContent'') of
              None \<Rightarrow> None | Some cc \<Rightarrow> et_find cc (xsd ''extension'')) = Some ext"
  then show ?thesis using assms(2,3) by simp
next
  assume "(case et_find node (xsd ''complexContent'') of
              None \<Rightarrow> None | Some cc \<Rightarrow> et_find cc (xsd ''extension'')) = None
             \<and> (case et_find node (xsd ''simpleContent'') of
              None \<Rightarrow> None | Some sc \<Rightarrow> et_find sc (xsd ''extension'')) = Some ext"
  then show ?thesis using assms(2,3) by simp
qed

text \<open>
  Claim C5, as stated, fails: a context that contains \<^verbatim>\<open>name\<close> yields the field
  name \<^verbatim>\<open>name\<close> only when the base kind is \<^verbatim>\<open>string\<close>. Here the context
  \<^verbatim>\<open>rename_count\<close> over a base of kind \<^verbatim>\<open>int\<close> yields \<^verbatim>\<open>value\<close>.
\<close>

theorem base_value_name_counterexample:
  "contains ''name'' (str_lower ''rename_count'')
   \<and> base_value_name ''int'' ''rename_count'' \<noteq> ''name''
   \<and> expr_for_complex_type 2 ex_compiler ex_count ''rename_count'' =
       Some (Object [Field ''value'' (Scalar ''int'')])"
  by code_simp

text \<open>
  Claim C5, amended. For a complex type with a complex-content extension or, failing
  that, a simple-content extension, whose base and attributes resolve, the result is the
  filtered object of the base field followed by the attribute fields. For a scalar base
  the base field is named on the context in lower case (\<^verbatim>\<open>str.lower()\<close>): \<^verbatim>\<open>name\<close> when the context
  contains \<^verbatim>\<open>name\<close> and the base kind is \<^verbatim>\<open>string\<close>; else \<^verbatim>\<open>value\<close> when the
  context is \<^verbatim>\<open>skill\<close>; else, for the kind \<^verbatim>\<open>structured_text\<close>, \<^verbatim>\<open>text\<close> when the
  context is \<^verbatim>\<open>technique\<close> and \<^verbatim>\<open>content\<close> otherwise; else \<^verbatim>\<open>value\<close>. For a base
  that is not a scalar it is named \<^verbatim>\<open>value\<close>.
\<close>

theorem extension_base_field_name:
  assumes "(case et_find node (xsd ''complexContent'') of
              None \<Rightarrow> None | Some cc \<Rightarrow> et_find cc (xsd ''extension'')) = Some ext
           \<or> (case et_find node (xsd ''complexContent'') of
              None \<Rightarrow> None | Some cc \<Rightarrow> et_find cc (xsd ''extension'')) = None
             \<and> (case et_find node (xsd ''simpleContent'') of
              None \<Rightarrow> None | Some sc \<Rightarrow> et_find sc (xsd ''extension'')) = Some ext"
    and "expr_for_type_name n c (et_get_default ext ''base'' ''xs:string'') ctx = Some base"
    and "those (map (attribute_to_field n c) (et_findall ext (xsd ''attribute''))) = Some attr_fields"
  shows "expr_for_complex_type (Suc n) c node ctx =
     Some (Object (filter_fields c
       (Field (case base of
                 Scalar kind \<Rightarrow>
                   if contains ''name'' (str_lower ctx) \<and> kind = ''string'' then ''name''
                   else if str_lower ctx = ''skill'' then ''value''
                   else if kind = ''structured_text''
                     then (if str_lower ctx = ''technique'' then ''text'' else ''content'')
                   else ''value''
               | _ \<Rightarrow> ''value'') base # attr_fields)))"
  using extension_resolution [OF assms] by (simp only: extension_base_field_unfold)

theorem extension_base_field_name_witness:
  "expr_for_complex_type (Suc 2) ex_compiler ex_skill ''skill'' =
     Some (Object [Field ''value'' (Scalar ''string''), Field ''id'' (Scalar ''int'')])
   \<and> expr_for_complex_type (Suc 2) ex_compiler ex_skill ''skill_name'' =
     Some (Object [Field ''name'' (Scalar ''string''), Field ''id'' (Scalar ''int'')])"
proof -
  let ?ext = "Element (xsd ''extension'') [(''base'', ''xs:string'')] [ex_id]"
  have ext: "(case et_find ex_skill (xsd ''complexContent'') of
              None \<Rightarrow> None | Some cc \<Rightarrow> et_find cc (xsd ''extension'')) = Some ?ext
           \<or> (case et_find ex_skill (xsd ''complexContent'') of
              None \<Rightarrow> None | Some cc \<Rightarrow> et_find cc (xsd ''extension'')) = None
             \<and> (case et_find ex_skill (xsd ''simpleContent'') of
              None \<Rightarrow> None | Some sc \<Rightarrow> et_find sc (xsd ''extension'')) = Some ?ext"
    by (simp add: ex_skill_def et_find_def)
  have bs: "builtin_scalar ''xs:string'' = ''string''"
    by code_simp
  have base: "expr_for_type_name 2 ex_compiler (et_get_default ?ext ''base'' ''xs:string'') ctx
      = Some (Scalar ''string'')" for ctx
    by (simp add: et_get_default_def et_get_def numeral_2_eq_2 startswith_def bs)
  have attrs: "those (map (attribute_to_field 2 ex_compiler) (et_findall ?ext (xsd ''attribute'')))
      = Some [Field ''id'' (Scalar ''int'')]"
    by code_simp
  have flt: "filter_fields ex_compiler [Field nm (Scalar ''string''), Field ''id'' (Scalar ''int'')]
      = [Field nm (Scalar ''string''), Field ''id'' (Scalar ''int'')]" for nm
    by (simp add: filter_fields_def ex_compiler_def)
  have l: "str_lower ''skill'' = ''skill''" "str_lower ''skill_name'' = ''skill_name''"
      "contains ''name'' ''skill_name'' = True" "contains ''name'' ''skill'' = False"
    by code_simp+
  have "expr_for_complex_type (Suc 2) ex_compiler ex_skill ''skill'' =
     Some (Object [Field ''value'' (Scalar ''string''), Field ''id'' (Scalar ''int'')])"
    using extension_base_field_name [OF ext base attrs, of "''skill''"]
    by (simp only: l flt expr.case if_True if_False simp_thms)
  moreover have "expr_for_complex_type (Suc 2) ex_compiler ex_skill ''skill_name'' =
     Some (Object [Field ''name'' (Scalar ''string''), Field ''id'' (Scalar ''int'')])"
    using extension_base_field_name [OF ext base attrs, of "''skill_name''"]
    by (simp only: l flt expr.case if_True if_False simp_thms)
  ultimately show ?thesis by (rule conjI)
qed

text \<open>The context is lowered as \<^verbatim>\<open>str.lower()\<close> does: with the Kelvin sign in place of
  the letter \<^verbatim>\<open>K\<close>, the context \<^verbatim>\<open>SKILL\<close> still names the field \<^verbatim>\<open>value\<close>.\<close>

lemma base_value_name_kelvin_sign:
  "base_value_name ''structured_text'' ([CHR ''S'', CHR 0xE2, CHR 0x84, CHR 0xAA] @ ''ILL'')
     = ''value''"
  by code_simp

subsection \<open>Enumerations\<close>

lemma enum_values_loop_map_filter:
  "enum_values_loop facets vals = vals @ List.map_filter (\<lambda>f. et_get f ''value'') facets"
  by (induction facets arbitrary: vals) (simp_all add: map_filter_simps split: option.splits)

text \<open>
  Claim C7. For a simple type whose restriction has enumeration facets with values, the
  resolved expression is the scalar \<^verbatim>\<open>enum(...)\<close> of exactly the facets' \<^verbatim>\<open>value\<close>
  attributes, unchanged and in document order, each in double quotes and separated by a
  comma and a space; it renders as that text on one line.
\<close>

theorem enumeration_values_in_order:
  assumes "et_find node (xsd ''restriction'') = Some restriction"
    and "vs = List.map_filter (\<lambda>facet. et_get facet ''value'')
                (et_findall restriction (xsd ''enumeration''))"
    and "vs \<noteq> []"
  shows "expr_for_simple_type node =
           Scalar (''enum('' @ join '', '' (map (\<lambda>v. [CHR 0x22] @ v @ [CHR 0x22]) vs) @ '')'')
    \<and> render_expr (expr_for_simple_type node) indent =
           [pad indent @ ''enum('' @ join '', '' (map (\<lambda>v. [CHR 0x22] @ v @ [CHR 0x22]) vs)
              @ '')'']"
proof -
  have "enum_values_from_simple_type node = vs"
    using assms(1,2) by (simp add: enum_values_from_simple_type_def enum_values_loop_map_filter)
  then show ?thesis
    using assms(3) by (simp add: expr_for_simple_type_def)
qed

theorem enumeration_values_in_order_witness:
  "et_find ex_level (xsd ''restriction'') = Some (hd (children ex_level))
   \<and> List.map_filter (\<lambda>facet. et_get facet ''value'')
        (et_findall (hd (children ex_level)) (xsd ''enumeration'')) = [''High'', ''Medium'', ''Low'']
   \<and> expr_for_simple_type ex_level =
        Scalar (''enum('' @ [CHR 0x22] @ ''High'' @ [CHR 0x22] @ '', '' @ [CHR 0x22] @ ''Medium''
          @ [CHR 0x22] @ '', '' @ [CHR 0x22] @ ''Low'' @ [CHR 0x22] @ '')'')
   \<and> render_expr (expr_for_simple_type ex_level) 0 =
        [''enum('' @ [CHR 0x22] @ ''High'' @ [CHR 0x22] @ '', '' @ [CHR 0x22] @ ''Medium''
          @ [CHR 0x22] @ '', '' @ [CHR 0x22] @ ''Low'' @ [CHR 0x22] @ '')'']"
proof -
  have r: "et_find ex_level (xsd ''restriction'') = Some (hd (children ex_level))"
    by (simp add: ex_level_def et_find_def)
  have vs: "[''High'', ''Medium'', ''Low''] = List.map_filter (\<lambda>facet. et_get facet ''value'')
        (et_findall (hd (children ex_level)) (xsd ''enumeration''))"
    by (simp add: ex_level_def et_findall_def et_get_def map_filter_simps)
  have ne: "[''High'', ''Medium'', ''Low''] \<noteq> []"
    by simp
  show ?thesis
    using enumeration_values_in_order [OF r vs ne, of 0] r vs [symmetric]
    by (simp add: pad_def)
qed

subsection \<open>The schema index\<close>

lemma find_snoc:
  "find P (xs @ [x]) = (case find P xs of None \<Rightarrow> (if P x then Some x else None) | Some y \<Rightarrow> Some y)"
  by (induction xs) simp_all

lemma truthy_the_eq: "nm \<noteq> [] \<Longrightarrow> (truthy v \<and> the v = nm) = (v = Some nm)"
  by (cases v) auto

lemma index_child_lookup:
  assumes "nm \<noteq> []"
  shows "simple_types (index_child ch c) nm =
           (if strip_ns (tag ch) = ''simpleType'' \<and> et_get ch ''name'' = Some nm then Some ch
            else simple_types c nm)"
    and "complex_types (index_child ch c) nm =
           (if strip_ns (tag ch) = ''complexType'' \<and> et_get ch ''name'' = Some nm then Some ch
            else complex_types c nm)"
    and "global_elements (index_child ch c) nm =
           (if strip_ns (tag ch) = ''element'' \<and> et_get ch ''name'' = Some nm then Some ch
            else global_elements c nm)"
  using truthy_the_eq [OF assms, of "et_get ch ''name''"]
  by (auto simp: index_child_def Let_def)

lemma fold_index_child_lookup:
  assumes "nm \<noteq> []"
  shows "simple_types (fold index_child chs c) nm =
           (case find (\<lambda>ch. strip_ns (tag ch) = ''simpleType'' \<and> et_get ch ''name'' = Some nm)
                   (rev chs) of
              None \<Rightarrow> simple_types c nm | Some ch \<Rightarrow> Some ch)
       \<and> complex_types (fold index_child chs c) nm =
           (case find (\<lambda>ch. strip_ns (tag ch) = ''complexType'' \<and> et_get ch ''name'' = Some nm)
                   (rev chs) of
              None \<Rightarrow> complex_types c nm | Some ch \<Rightarrow> Some ch)
       \<and> global_elements (fold index_child chs c) nm =
           (case find (\<lambda>ch. strip_ns (tag ch) = ''element'' \<and> et_get ch ''name'' = Some nm)
                   (rev chs) of
              None \<Rightarrow> global_elements c nm | Some ch \<Rightarrow> Some ch)"
proof (induction chs arbitrary: c)
  case Nil
  show ?case by simp
next
  case (Cons x xs)
  show ?case
    by (simp add: Cons.IH find_snoc index_child_lookup [OF assms] split: option.splits)
qed

lemma index_child_empty_name:
  "simple_types (index_child ch c) [] = simple_types c []
   \<and> complex_types (index_child ch c) [] = complex_types c []
   \<and> global_elements (index_child ch c) [] = global_elements c []"
  by (cases "et_get ch ''name''") (auto simp: index_child_def Let_def)

lemma fold_index_child_empty_name:
  "simple_types (fold index_child chs c) [] = simple_types c []
   \<and> complex_types (fold index_child chs c) [] = complex_types c []
   \<and> global_elements (fold index_child chs c) [] = global_elements c []"
  by (induction chs arbitrary: c) (simp_all add: index_child_empty_name)

text \<open>
  Claim C6, as stated, fails: with two top-level simple types of one name, the lookup
  does not return the first of them.
\<close>

theorem first_declaration_counterexample:
  "find (\<lambda>ch. strip_ns (tag ch) = ''simpleType'' \<and> et_get ch ''name'' = Some ''CodeType'')
     (children ex_dup_doc) = Some ex_dup_first
   \<and> simple_types (XSDSchemaCompiler ''s.xsd'' ex_dup_doc {}) ''CodeType'' \<noteq> Some ex_dup_first"
  by code_simp

text \<open>
  Claim C6, amended. Each assignment into a dictionary replaces the entry of that name,
  so after indexing the lookup of a name returns the last top-level child of that tag
  kind with that \<^verbatim>\<open>name\<close> attribute in document order (the first one from the end),
  and nothing for a name that no such child carries; the empty name is never recorded.
\<close>

theorem index_keeps_last_declaration:
  "simple_types (XSDSchemaCompiler path doc ign) nm =
     (if nm = [] then None
      else find (\<lambda>ch. strip_ns (tag ch) = ''simpleType'' \<and> et_get ch ''name'' = Some nm)
             (rev (children doc)))
   \<and> complex_types (XSDSchemaCompiler path doc ign) nm =
     (if nm = [] then None
      else find (\<lambda>ch. strip_ns (tag ch) = ''complexType'' \<and> et_get ch ''name'' = Some nm)
             (rev (children doc)))
   \<and> global_elements (XSDSchemaCompiler path doc ign) nm =
     (if nm = [] then None
      else find (\<lambda>ch. strip_ns (tag ch) = ''element'' \<and> et_get ch ''name'' = Some nm)
             (rev (children doc)))"
proof (cases "nm = []")
  case True
  then show ?thesis
    by (simp add: XSDSchemaCompiler_def index_schema_def fold_index_child_empty_name)
next
  case False
  then show ?thesis
    by (simp add: XSDSchemaCompiler_def index_schema_def fold_index_child_lookup
          split: option.splits)
qed

theorem index_keeps_last_declaration_witness:
  "simple_types (XSDSchemaCompiler ''s.xsd'' ex_dup_doc {}) ''CodeType'' = Some ex_dup_second
   \<and> parse 3 ''s.xsd'' ex_dup_doc ''Code'' {} = Some (Inr (''code: int'' @ [CHR 0x0A]))"
proof -
  have "find (\<lambda>ch. strip_ns (tag ch) = ''simpleType'' \<and> et_get ch ''name'' = Some ''CodeType'')
     (rev (children ex_dup_doc)) = Some ex_dup_second"
    by code_simp
  moreover have "parse 3 ''s.xsd'' ex_dup_doc ''Code'' {} = Some (Inr (''code: int'' @ [CHR 0x0A]))"
    by code_simp
  ultimately show ?thesis
    using index_keeps_last_declaration [of "''s.xsd''" ex_dup_doc "{}" "''CodeType''"]
    by simp
qed

subsection \<open>The identifier normalizer\<close>

lemma us_not_alnum [simp]: "\<not> is_alnum (CHR ''_'')"
  by (simp add: is_alnum_def is_digit_def is_upper_def is_lower_def)

lemma lower_char_us [simp]: "lower_char (CHR ''_'') = CHR ''_''"
  by (simp add: lower_char_def is_upper_def)

lemma lower_char_eq_us [simp]: "(lower_char c = CHR ''_'') = (c = CHR ''_'')"
proof
  assume h: "lower_char c = CHR ''_''"
  show "c = CHR ''_''"
  proof (cases "is_upper c")
    case True
    then have "of_char (lower_char c) = (of_char c + 32 :: nat)"
      by (simp add: lower_char_def is_upper_def)
    with h True show ?thesis by (simp add: is_upper_def)
  next
    case False
    with h show ?thesis by (simp add: lower_char_def)
  qed
qed simp

lemma lower_char_not_upper [simp]: "\<not> is_upper (lower_char c)"
  by (auto simp: lower_char_def is_upper_def)

lemma lower_char_alnum [simp]: "is_alnum (lower_char c) = is_alnum c"
  by (auto simp: lower_char_def is_alnum_def is_upper_def is_lower_def is_digit_def)

lemma lower_char_idem: "\<not> is_upper c \<Longrightarrow> lower_char c = c"
  by (simp add: lower_char_def)


lemma dropWhile_non_alnum_cases:
  "dropWhile (\<lambda>d. \<not> is_alnum d) cs = [] \<or>
   (\<exists>y ys. dropWhile (\<lambda>d. \<not> is_alnum d) cs = y # ys \<and> is_alnum y)"
proof (cases "dropWhile (\<lambda>d. \<not> is_alnum d) cs")
  case Nil
  then show ?thesis by simp
next
  case (Cons y ys)
  then have "is_alnum y"
    using hd_dropWhile [of "\<lambda>d. \<not> is_alnum d" cs] by simp
  with Cons show ?thesis by simp
qed

lemma separated_sub_non_alnum: "separated (sub_non_alnum s)"
proof (induction s rule: sub_non_alnum.induct)
  case 1
  show ?case by simp
next
  case (2 c cs)
  show ?case
  proof (cases "is_alnum c")
    case True
    with 2 show ?thesis by simp
  next
    case False
    with 2 have ih: "separated (sub_non_alnum (dropWhile (\<lambda>d. \<not> is_alnum d) cs))" by simp
    from dropWhile_non_alnum_cases [of cs] show ?thesis
    proof
      assume d: "dropWhile (\<lambda>d. \<not> is_alnum d) cs = []"
      from False show ?thesis by (simp add: d del: dropWhile_eq_Nil_conv)
    next
      assume "\<exists>y ys. dropWhile (\<lambda>d. \<not> is_alnum d) cs = y # ys \<and> is_alnum y"
      then obtain y ys where d: "dropWhile (\<lambda>d. \<not> is_alnum d) cs = y # ys" and y: "is_alnum y"
        by blast
      with ih False show ?thesis by simp
    qed
  qed
qed

lemma sub_camel_head: "\<exists>r. sub_camel (b # cs) = b # r"
  by (cases cs) simp_all

lemma separated_sub_camel: "separated s \<Longrightarrow> separated (sub_camel s)"
proof (induction s rule: sub_camel.induct)
  case (1 a b cs)
  obtain r where r: "sub_camel (b # cs) = b # r"
    using sub_camel_head by blast
  show ?case
  proof (cases "(is_lower a \<or> is_digit a) \<and> is_upper b")
    case True
    then have ab: "is_alnum a" "is_alnum b" by (auto simp: is_alnum_def)
    from "1.prems" have "separated cs" by simp
    with True "1.IH"(1) have "separated (sub_camel cs)" by simp
    moreover from "1.prems" ab have "case cs of [] \<Rightarrow> True | d # ds \<Rightarrow> is_alnum b \<or> True"
      by (simp split: list.splits)
    ultimately show ?thesis using True ab by simp
  next
    case False
    from "1.prems" have "separated (b # cs)" by simp
    with False "1.IH"(2) have "separated (sub_camel (b # cs))" by simp
    with False "1.prems" r show ?thesis by auto
  qed
qed simp_all

lemma separated_append_left: "separated (xs @ ys) \<Longrightarrow> separated xs"
proof (induction xs)
  case Nil
  show ?case by simp
next
  case (Cons x xs)
  then show ?case by (cases xs) auto
qed

lemma separated_dropWhile: "separated s \<Longrightarrow> separated (dropWhile P s)"
  by (induction s) auto

lemma rev_dropWhile_rev_prefix:
  "s = rev (dropWhile P (rev s)) @ rev (takeWhile P (rev s))"
  by (metis rev_append rev_rev_ident takeWhile_dropWhile_id)

lemma separated_strip: "separated s \<Longrightarrow> separated (strip_underscores s)"
proof -
  assume "separated s"
  then have "separated (dropWhile (\<lambda>c. c = CHR ''_'') s)" by (rule separated_dropWhile)
  then show ?thesis
    unfolding strip_underscores_def
    using rev_dropWhile_rev_prefix [of "dropWhile (\<lambda>c. c = CHR ''_'') s" "\<lambda>c. c = CHR ''_''"]
      separated_append_left by metis
qed

lemma separated_lower: "separated s \<Longrightarrow> separated (lower s)"
  unfolding lower_def
proof (induction s)
  case Nil
  show ?case by simp
next
  case (Cons c cs)
  then show ?case by (cases cs) auto
qed


lemma last_dropWhile: "dropWhile P xs \<noteq> [] \<Longrightarrow> last (dropWhile P xs) = last xs"
  by (induction xs) (auto split: if_splits)

lemma strip_underscores_ends:
  assumes "strip_underscores s \<noteq> []"
  shows "hd (strip_underscores s) \<noteq> CHR ''_'' \<and> last (strip_underscores s) \<noteq> CHR ''_''"
proof -
  let ?P = "\<lambda>c. c = CHR ''_''"
  let ?u = "dropWhile ?P s"
  let ?v = "dropWhile ?P (rev ?u)"
  from assms have v: "?v \<noteq> []" by (simp add: strip_underscores_def del: dropWhile_eq_Nil_conv)
  have u: "?u \<noteq> []"
  proof
    assume e: "?u = []"
    have "?v = []" unfolding e by simp
    with v show False by (rule notE)
  qed
  have "hd ?v \<noteq> CHR ''_''" using hd_dropWhile [OF v] by simp
  then have l: "last (strip_underscores s) \<noteq> CHR ''_''"
    using v by (simp add: strip_underscores_def last_rev del: dropWhile_eq_Nil_conv)
  have "last ?v = last (rev ?u)" using v by (rule last_dropWhile)
  also have "\<dots> = hd ?u" using u by (simp add: last_rev del: dropWhile_eq_Nil_conv)
  finally have "hd (strip_underscores s) = hd ?u"
    using v by (simp add: strip_underscores_def hd_rev del: dropWhile_eq_Nil_conv)
  moreover have "hd ?u \<noteq> CHR ''_''" using hd_dropWhile [OF u] by simp
  ultimately show ?thesis using l by simp
qed

lemma strip_underscores_fixed:
  assumes "s = [] \<or> hd s \<noteq> CHR ''_'' \<and> last s \<noteq> CHR ''_''"
  shows "strip_underscores s = s"
proof (cases s)
  case Nil
  then show ?thesis by (simp add: strip_underscores_def)
next
  case (Cons c cs)
  with assms have h: "c \<noteq> CHR ''_''" and l: "last s \<noteq> CHR ''_''" by auto
  from Cons h have 1: "dropWhile (\<lambda>c. c = CHR ''_'') s = s" by simp
  from Cons have "rev s \<noteq> []" by simp
  moreover from l have "hd (rev s) \<noteq> CHR ''_''" by (simp add: hd_rev)
  ultimately have "dropWhile (\<lambda>c. c = CHR ''_'') (rev s) = rev s"
    by (cases "rev s") auto
  with 1 show ?thesis by (simp add: strip_underscores_def)
qed

lemma sub_non_alnum_fixed: "separated s \<Longrightarrow> sub_non_alnum s = s"
proof (induction s)
  case Nil
  show ?case by simp
next
  case (Cons c cs)
  then show ?case by (cases cs) auto
qed

lemma sub_camel_fixed: "\<forall>c \<in> set s. \<not> is_upper c \<Longrightarrow> sub_camel s = s"
  by (induction s rule: sub_camel.induct) auto

lemma lower_fixed: "\<forall>c \<in> set s. \<not> is_upper c \<Longrightarrow> lower s = s"
  by (simp add: lower_def lower_char_idem map_idI)

lemma lower_no_upper: "\<forall>c \<in> set (lower s). \<not> is_upper c"
  by (simp add: lower_def)

lemma lower_ends:
  assumes "s = [] \<or> hd s \<noteq> CHR ''_'' \<and> last s \<noteq> CHR ''_''"
  shows "lower s = [] \<or> hd (lower s) \<noteq> CHR ''_'' \<and> last (lower s) \<noteq> CHR ''_''"
  using assms by (cases "s = []") (simp_all add: lower_def hd_map last_map)

text \<open>
  Claim C8. The normalizer is a total function (it is defined by terminating recursion
  and raises nothing), it is idempotent, and it maps the empty string to the empty
  string.
\<close>

theorem snake_case_idempotent:
  "snake_case (snake_case x) = snake_case x \<and> snake_case [] = []"
proof
  let ?t = "strip_underscores (sub_camel (sub_non_alnum x))"
  let ?y = "snake_case x"
  have y: "?y = lower ?t" by (simp add: snake_case_def)
  have sep: "separated ?y"
    unfolding y
    by (intro separated_lower separated_strip separated_sub_camel separated_sub_non_alnum)
  have up: "\<forall>c \<in> set ?y. \<not> is_upper c"
    unfolding y by (rule lower_no_upper)
  have "?t = [] \<or> hd ?t \<noteq> CHR ''_'' \<and> last ?t \<noteq> CHR ''_''"
    using strip_underscores_ends [of "sub_camel (sub_non_alnum x)"] by blast
  then have ends: "?y = [] \<or> hd ?y \<noteq> CHR ''_'' \<and> last ?y \<noteq> CHR ''_''"
    unfolding y by (rule lower_ends)
  have "snake_case ?y = lower (strip_underscores (sub_camel (sub_non_alnum ?y)))"
    by (simp add: snake_case_def)
  also have "\<dots> = lower (strip_underscores (sub_camel ?y))"
    using sep by (simp only: sub_non_alnum_fixed)
  also have "\<dots> = lower (strip_underscores ?y)"
    using up by (simp only: sub_camel_fixed)
  also have "\<dots> = lower ?y"
    using ends by (simp only: strip_underscores_fixed)
  also have "\<dots> = ?y"
    using up by (rule lower_fixed)
  finally show "snake_case ?y = ?y" .
next
  show "snake_case [] = []"
    by (simp add: snake_case_def strip_underscores_def lower_def)
qed

theorem snake_case_idempotent_witness:
  "snake_case ''Example_Instance'' = ''example_instance''
   \<and> snake_case (snake_case ''Example_Instance'') = ''example_instance''
   \<and> snake_case ''camelCase  Name-2X__'' = ''camel_case_name_2_x''
   \<and> snake_case (snake_case ''camelCase  Name-2X__'') = ''camel_case_name_2_x''"
proof -
  have a: "snake_case ''Example_Instance'' = ''example_instance''"
    by code_simp
  have b: "snake_case ''camelCase  Name-2X__'' = ''camel_case_name_2_x''"
    by code_simp
  show ?thesis
    using snake_case_idempotent [of "''Example_Instance''"]
      snake_case_idempotent [of "''camelCase  Name-2X__''"] a b
    by simp
qed

subsection \<open>The root\<close>





subsection \<open>The depth of the recursion\<close>







subsection \<open>Resolution returns on schemas without self-reference\<close>


lemma subnode_of_child:
  "x \<in> set (subnodes y) \<Longrightarrow> y \<in> set (children node) \<Longrightarrow> x \<in> set (subnodes node)"
  by (cases node) auto














lemma strip_ns_xsd [simp]: "strip_ns (xsd t) = t"
  by (simp add: strip_ns_def xsd_def XSD_NS_def after_first_def)






end
